theory Spec2Isabelle
  imports Main
begin

section \<open>The student record store of app.py\<close>

text \<open>
  The store of \<^verbatim>\<open>src/app.py\<close> is one SQLite table,
  \<^verbatim>\<open>students (id INTEGER PRIMARY KEY AUTOINCREMENT, name, email, phone, course,
  enrollment_date)\<close>, and six functions that each open the database file, run one SQL
  statement and close the file again. The embedding makes the database file an explicit
  value that every function takes and, when it writes, returns.

  What is modelled, and from where:
  \<^item> a row of the table is a record with the six columns, in the order of the schema;
  \<^item> the table is the list of its rows in storage order (a rowid table is scanned in
    rowid order) together with the counter SQLite keeps for an \<^verbatim>\<open>AUTOINCREMENT\<close>
    column, the largest rowid the table has ever held;
  \<^item> the database file either holds the table or does not; a statement on a file
    without the table raises, which is a value of type \<open>error\<close>;
  \<^item> \<^verbatim>\<open>datetime.now()\<close> is a parameter of \<open>insert_student\<close>: the reading of the
    clock at the call.

  The column \<^verbatim>\<open>id\<close> is the rowid of the table, a signed 64-bit integer. Python
  integers are values of type \<open>int\<close>: one outside the 64-bit range cannot be bound to
  a parameter of a statement, the \<^verbatim>\<open>sqlite3\<close> module raises
  \<^verbatim>\<open>OverflowError\<close>. A table whose \<^verbatim>\<open>AUTOINCREMENT\<close> counter has reached the
  largest rowid takes no further row: the \<^verbatim>\<open>INSERT\<close> fails, which the module raises
  as \<^verbatim>\<open>OperationalError\<close>. Both are branches of the model.

  Python strings are values of type \<open>string\<close>. Failures of the storage engine
  itself (input and output, a full disk) are not part of the model: no function of the
  source handles them.
\<close>

subsection \<open>Rows, the table, the database file\<close>

record student =
  id' :: int
  name :: string
  email :: string
  phone :: string
  course :: string
  enrollment_date :: string

record students =
  rows :: "student list"
  sqlite_sequence :: int

type_synonym database = "students option"

text \<open>
  The exceptions the functions raise: \<^verbatim>\<open>sqlite3.OperationalError\<close> with the message
  of the engine, the \<^verbatim>\<open>DatabaseError\<close> of pandas, and \<^verbatim>\<open>OverflowError\<close>.
\<close>

datatype error = OperationalError string | DatabaseError | OverflowError

text \<open>The rowids: the signed 64-bit integers, the largest of which is \<open>max_rowid\<close>.\<close>

definition max_rowid :: int where
  "max_rowid = 2 ^ 63 - 1"

definition int64 :: "int \<Rightarrow> bool" where
  "int64 i \<longleftrightarrow> - (2 ^ 63) \<le> i \<and> i \<le> max_rowid"

subsection \<open>The clock and \<^verbatim>\<open>strftime("%Y-%m-%d %H:%M:%S")\<close>\<close>

record datetime =
  year :: nat
  month :: nat
  day :: nat
  hour :: nat
  minute :: nat
  second :: nat

definition digit_char :: "nat \<Rightarrow> char" where
  "digit_char d = ''0123456789'' ! d"

fun str :: "nat \<Rightarrow> string" where
  "str n = (if n < 10 then [digit_char n] else str (n div 10) @ [digit_char (n mod 10)])"

declare str.simps [simp del]

definition zfill :: "nat \<Rightarrow> string \<Rightarrow> string" where
  "zfill w s = replicate (w - length s) (CHR ''0'') @ s"

definition strftime :: "datetime \<Rightarrow> string" where
  "strftime d =
     zfill 4 (str (year d)) @ ''-'' @ zfill 2 (str (month d)) @ ''-'' @ zfill 2 (str (day d))
     @ '' '' @ zfill 2 (str (hour d)) @ '':'' @ zfill 2 (str (minute d)) @ '':''
     @ zfill 2 (str (second d))"

text \<open>
  The readings of the clock the format is stated for: the fields of a Python
  \<^verbatim>\<open>datetime\<close> in their ranges, with a year of four digits. For an earlier year
  the width of \<^verbatim>\<open>%Y\<close> is the platform's, which the source does not fix; every
  statement below about the text of a timestamp is made for these readings.
\<close>

definition clock_reading :: "datetime \<Rightarrow> bool" where
  "clock_reading d \<longleftrightarrow>
     1000 \<le> year d \<and> year d \<le> 9999 \<and> 1 \<le> month d \<and> month d \<le> 12 \<and>
     1 \<le> day d \<and> day d \<le> 31 \<and> hour d < 24 \<and> minute d < 60 \<and> second d < 60"

definition is_digit :: "char \<Rightarrow> bool" where
  "is_digit c \<longleftrightarrow> c \<in> set ''0123456789''"

text \<open>
  A text conforms to a layout such as \<^verbatim>\<open>YYYY-MM-DD HH:MM:SS\<close> when it has a decimal
  digit wherever the layout has one of the letters Y, M, D, H, S and the layout's own
  character everywhere else.
\<close>

fun conforms :: "string \<Rightarrow> string \<Rightarrow> bool" where
  "conforms [] [] = True"
| "conforms (p # ps) (c # cs) =
     ((if p \<in> set ''YMDHS'' then is_digit c else c = p) \<and> conforms ps cs)"
| "conforms _ _ = False"

text \<open>
  What a text of that layout says: the numbers that its six fields of digits are the
  decimal notation of. This is not a function of the source; it states, independently
  of \<open>strftime\<close>, which instant a timestamp denotes.
\<close>

definition digit_value :: "char \<Rightarrow> nat" where
  "digit_value c = of_char c - 48"

definition decimal :: "string \<Rightarrow> nat" where
  "decimal s = foldl (\<lambda>a c. 10 * a + digit_value c) 0 s"

definition read_timestamp :: "string \<Rightarrow> datetime" where
  "read_timestamp s =
     \<lparr>year = decimal (take 4 s), month = decimal (take 2 (drop 5 s)),
      day = decimal (take 2 (drop 8 s)), hour = decimal (take 2 (drop 11 s)),
      minute = decimal (take 2 (drop 14 s)), second = decimal (take 2 (drop 17 s))\<rparr>"

subsection \<open>The six functions\<close>

text \<open>\<^verbatim>\<open>CREATE TABLE IF NOT EXISTS students (...)\<close>: a new table is empty and no rowid
  has been given out yet.\<close>

definition init_database :: "database \<Rightarrow> database" where
  "init_database db =
     (case db of None \<Rightarrow> Some \<lparr>rows = [], sqlite_sequence = 0\<rparr> | Some t \<Rightarrow> Some t)"

text \<open>
  The rowid of an inserted row whose \<^verbatim>\<open>id\<close> is not given: one more than the
  largest rowid in the table (1 in an empty table), and with \<^verbatim>\<open>AUTOINCREMENT\<close> at
  least one more than the largest rowid the table has ever held. When the table holds
  or has ever held the largest rowid there is none: the statement fails.
\<close>

fun largest_rowid :: "student list \<Rightarrow> int option" where
  "largest_rowid [] = None"
| "largest_rowid (r # rs) =
     (case largest_rowid rs of None \<Rightarrow> Some (id' r) | Some m \<Rightarrow> Some (max (id' r) m))"

definition new_rowid :: "students \<Rightarrow> int option" where
  "new_rowid t =
     (let v = (case largest_rowid (rows t) of None \<Rightarrow> 1 | Some m \<Rightarrow> m + 1)
      in if max_rowid < v \<or> sqlite_sequence t = max_rowid then None
         else Some (max v (sqlite_sequence t + 1)))"

definition insert_student ::
  "database \<Rightarrow> string \<Rightarrow> string \<Rightarrow> string \<Rightarrow> string \<Rightarrow> datetime \<Rightarrow> error + database" where
  "insert_student db name' email' phone' course' now =
     (case db of
        None \<Rightarrow> Inl (OperationalError ''no such table: students'')
      | Some t \<Rightarrow>
          let enrollment_date' = strftime now
          in case new_rowid t of
               None \<Rightarrow> Inl (OperationalError ''database or disk is full'')
             | Some i \<Rightarrow>
                 Inr (Some \<lparr>rows = rows t @
                              [\<lparr>id' = i, name = name', email = email', phone = phone',
                                course = course', enrollment_date = enrollment_date'\<rparr>],
                            sqlite_sequence = i\<rparr>))"

text \<open>\<^verbatim>\<open>pd.read_sql_query\<close> wraps the engine's error in its own \<^verbatim>\<open>DatabaseError\<close>.\<close>

definition view_all_students :: "database \<Rightarrow> error + student list" where
  "view_all_students db =
     (case db of None \<Rightarrow> Inl DatabaseError | Some t \<Rightarrow> Inr (rows t))"

fun fetchone :: "'a list \<Rightarrow> 'a option" where
  "fetchone [] = None"
| "fetchone (r # rs) = Some r"

text \<open>
  The three functions that take an id prepare their statement, which fails on a file
  without the table, and then bind the id to it, which fails for an integer that is no
  64-bit integer.
\<close>

definition get_student_by_id :: "database \<Rightarrow> int \<Rightarrow> error + student option" where
  "get_student_by_id db student_id =
     (case db of
        None \<Rightarrow> Inl (OperationalError ''no such table: students'')
      | Some t \<Rightarrow>
          if int64 student_id
          then Inr (fetchone (filter (\<lambda>r. id' r = student_id) (rows t)))
          else Inl OverflowError)"

definition update_student ::
  "database \<Rightarrow> int \<Rightarrow> string \<Rightarrow> string \<Rightarrow> string \<Rightarrow> string \<Rightarrow> error + database" where
  "update_student db student_id name' email' phone' course' =
     (case db of
        None \<Rightarrow> Inl (OperationalError ''no such table: students'')
      | Some t \<Rightarrow>
          if int64 student_id
          then Inr (Some (t\<lparr>rows :=
                 map (\<lambda>r. if id' r = student_id
                          then r\<lparr>name := name', email := email', phone := phone',
                                 course := course'\<rparr>
                          else r) (rows t)\<rparr>))
          else Inl OverflowError)"

definition delete_student :: "database \<Rightarrow> int \<Rightarrow> error + database" where
  "delete_student db student_id =
     (case db of
        None \<Rightarrow> Inl (OperationalError ''no such table: students'')
      | Some t \<Rightarrow>
          if int64 student_id
          then Inr (Some (t\<lparr>rows := filter (\<lambda>r. id' r \<noteq> student_id) (rows t)\<rparr>))
          else Inl OverflowError)"

subsection \<open>Store states and sequences of calls\<close>

text \<open>
  A store state is a database file that holds the table, as it does from line 135 of
  the source on, with the properties SQLite maintains for the table: the rows are
  stored in strictly ascending order of the primary key, every rowid and the counter of
  the \<^verbatim>\<open>AUTOINCREMENT\<close> column are 64-bit integers, and no rowid exceeds the counter.
\<close>

definition ids :: "students \<Rightarrow> int list" where
  "ids t = map id' (rows t)"

definition store_state :: "database \<Rightarrow> bool" where
  "store_state db \<longleftrightarrow>
     (case db of
        None \<Rightarrow> False
      | Some t \<Rightarrow>
          sorted_wrt (<) (ids t)
          \<and> list_all (\<lambda>i. int64 i \<and> i \<le> sqlite_sequence t) (ids t)
          \<and> int64 (sqlite_sequence t))"

text \<open>
  The calls that write, and the database file after one of them and after a sequence
  of them. A call that raises leaves the file as it was.
\<close>

datatype call =
    Initialize
  | Create string string string string datetime
  | Update int string string string string
  | Delete int

definition keep :: "database \<Rightarrow> error + database \<Rightarrow> database" where
  "keep db res = (case res of Inl e \<Rightarrow> db | Inr db' \<Rightarrow> db')"

fun perform :: "database \<Rightarrow> call \<Rightarrow> database" where
  "perform db Initialize = init_database db"
| "perform db (Create n e p c now) = keep db (insert_student db n e p c now)"
| "perform db (Update i n e p c) = keep db (update_student db i n e p c)"
| "perform db (Delete i) = keep db (delete_student db i)"

definition session :: "database \<Rightarrow> call list \<Rightarrow> database" where
  "session db cs = foldl perform db cs"

text \<open>
  The ids that the creates of a sequence of calls assign, in the order of the calls; a
  create that raises assigns none.
\<close>

fun assigned :: "database \<Rightarrow> call list \<Rightarrow> int list" where
  "assigned db [] = []"
| "assigned db (Create n e p c now # cs) =
     (case db of
        None \<Rightarrow> []
      | Some t \<Rightarrow> (case new_rowid t of None \<Rightarrow> [] | Some i \<Rightarrow> [i])) @
     assigned (perform db (Create n e p c now)) cs"
| "assigned db (c # cs) = assigned (perform db c) cs"

text \<open>The rows of a database file; none when the table is missing.\<close>

definition records :: "database \<Rightarrow> student list" where
  "records db = (case db of None \<Rightarrow> [] | Some t \<Rightarrow> rows t)"

text \<open>
  The counter of the \<^verbatim>\<open>AUTOINCREMENT\<close> column of a database file: the largest rowid
  the table has ever held, 0 for a table that never held a row.
\<close>

definition counter :: "database \<Rightarrow> int" where
  "counter db = (case db of None \<Rightarrow> 0 | Some t \<Rightarrow> sqlite_sequence t)"

subsection \<open>An example store\<close>

text \<open>
  A store after five creates and the deletion of the records 2, 4 and 5: two records are
  left and the counter of the \<^verbatim>\<open>AUTOINCREMENT\<close> column stands at 5.
\<close>

definition alice :: student where
  "alice = \<lparr>id' = 1, name = ''Alice'', email = ''a@x.com'', phone = ''555-0001'',
             course = ''Data Science'', enrollment_date = ''2026-11-04 09:05:00''\<rparr>"

definition bob :: student where
  "bob = \<lparr>id' = 3, name = ''Bob'', email = ''b@x.com'', phone = ''555-0003'',
           course = ''Web Development'', enrollment_date = ''2026-11-05 17:30:59''\<rparr>"

definition two_students :: database where
  "two_students = Some \<lparr>rows = [alice, bob], sqlite_sequence = 5\<rparr>"

text \<open>A reading of the clock.\<close>

definition example_reading :: datetime where
  "example_reading = \<lparr>year = 2026, month = 11, day = 4, hour = 9, minute = 5, second = 0\<rparr>"

text \<open>The record that a create in the example store at that reading adds.\<close>

definition carol :: student where
  "carol = \<lparr>id' = 6, name = ''Carol'', email = ''c@x.com'', phone = ''555-0002'',
             course = ''Database Design'', enrollment_date = ''2026-11-04 09:05:00''\<rparr>"

text \<open>Two creates.\<close>

definition dave :: call where
  "dave = Create ''Dave'' ''d@x.com'' ''555-0004'' ''Machine Learning'' example_reading"

definition erin :: call where
  "erin = Create ''Erin'' ''e@x.com'' ''555-0005'' ''Data Science'' example_reading"

text \<open>
  The same two records in a table that has once held the largest rowid: the counter of
  the \<^verbatim>\<open>AUTOINCREMENT\<close> column stands at \<open>2 ^ 63 - 1\<close>.
\<close>

definition exhausted :: database where
  "exhausted = Some \<lparr>rows = [alice, bob], sqlite_sequence = 9223372036854775807\<rparr>"

section \<open>Basic facts\<close>

subsection \<open>Rowids\<close>

lemma int64_bounds: "int64 i \<longleftrightarrow> - 9223372036854775808 \<le> i \<and> i \<le> 9223372036854775807"
  by (simp add: int64_def max_rowid_def)

lemma int64_max_rowid: "int64 i \<Longrightarrow> i \<le> max_rowid"
  by (simp add: int64_def)

lemma largest_rowid_None: "largest_rowid rs = None \<longleftrightarrow> rs = []"
  by (induction rs) (auto split: option.splits)

lemma largest_rowid_bound: "largest_rowid rs = Some m \<Longrightarrow> r \<in> set rs \<Longrightarrow> id' r \<le> m"
  by (induction rs arbitrary: m) (auto split: option.splits simp: largest_rowid_None)

lemma largest_rowid_mem: "largest_rowid rs = Some m \<Longrightarrow> m \<in> set (map id' rs)"
  by (induction rs arbitrary: m) (auto split: option.splits simp: max_def)

lemma new_rowid_above_rows:
  assumes "new_rowid t = Some i" and "r \<in> set (rows t)"
  shows "id' r < i"
proof -
  from assms(2) obtain m where m: "largest_rowid (rows t) = Some m"
    by (cases "largest_rowid (rows t)") (auto simp: largest_rowid_None)
  from largest_rowid_bound [OF m assms(2)] assms(1) show ?thesis
    by (auto simp: new_rowid_def m Let_def split: if_splits)
qed

lemma new_rowid_above_sequence: "new_rowid t = Some i \<Longrightarrow> sqlite_sequence t < i"
  by (auto simp: new_rowid_def Let_def split: if_splits)

lemma new_rowid_fresh: "new_rowid t = Some i \<Longrightarrow> i \<notin> set (map id' (rows t))"
  using new_rowid_above_rows [of t i] by fastforce

subsection \<open>The text of a timestamp\<close>

lemma digit_chars: "list_all (\<lambda>d. is_digit (digit_char d)) [0..<10]"
  by code_simp

lemma digit_char_is_digit: "d < 10 \<Longrightarrow> is_digit (digit_char d)"
  using digit_chars by (simp add: list_all_iff)

lemma zero_is_digit: "is_digit (CHR ''0'')"
  by (simp add: is_digit_def)

lemma str_digits: "list_all is_digit (str n)"
proof (induction n rule: str.induct)
  case (1 n)
  show ?case
  proof (cases "n < 10")
    case True
    then show ?thesis by (simp add: str.simps [of n] digit_char_is_digit)
  next
    case False
    with 1 show ?thesis by (simp add: str.simps [of n] digit_char_is_digit)
  qed
qed

lemma length_str: "n < 10 ^ Suc k \<Longrightarrow> length (str n) \<le> Suc k"
proof (induction k arbitrary: n)
  case 0
  then show ?case by (simp add: str.simps [of n])
next
  case (Suc k)
  show ?case
  proof (cases "n < 10")
    case True
    then show ?thesis by (simp add: str.simps [of n])
  next
    case False
    from Suc.prems have "n div 10 < 10 ^ Suc k" by (simp add: less_mult_imp_div_less)
    from Suc.IH [OF this] False show ?thesis by (simp add: str.simps [of n])
  qed
qed

lemma length_zfill: "length s \<le> w \<Longrightarrow> length (zfill w s) = w"
  by (simp add: zfill_def)

lemma zfill_digits: "list_all is_digit s \<Longrightarrow> list_all is_digit (zfill w s)"
  by (auto simp: zfill_def list_all_iff zero_is_digit)

lemma conforms_append:
  "length ps = length cs \<Longrightarrow> conforms (ps @ qs) (cs @ ds) \<longleftrightarrow> conforms ps cs \<and> conforms qs ds"
  by (induction ps cs rule: list_induct2) auto

lemma conforms_length: "conforms ps cs \<Longrightarrow> length ps = length cs"
  by (induction ps cs rule: conforms.induct) auto

lemma conforms_appendI: "conforms ps cs \<Longrightarrow> conforms qs ds \<Longrightarrow> conforms (ps @ qs) (cs @ ds)"
  by (simp add: conforms_append conforms_length)

lemma conforms_field:
  "list_all is_digit cs \<Longrightarrow> length cs = w \<Longrightarrow> p \<in> set ''YMDHS'' \<Longrightarrow> conforms (replicate w p) cs"
  by (induction cs arbitrary: w) auto

lemma conforms_zfill:
  assumes "0 < w" and "n < 10 ^ w" and "p \<in> set ''YMDHS''"
  shows "conforms (replicate w p) (zfill w (str n))"
proof -
  from assms(1) obtain k where k: "w = Suc k"
    by (cases w) auto
  have "length (str n) \<le> w"
    using length_str [of n k] assms(2) by (simp add: k)
  then have "length (zfill w (str n)) = w"
    by (rule length_zfill)
  moreover have "list_all is_digit (zfill w (str n))"
    by (rule zfill_digits) (rule str_digits)
  ultimately show ?thesis
    using assms(3) conforms_field [of "zfill w (str n)" w p] by simp
qed

lemma replicate_four: "replicate 4 p = [p, p, p, p]"
  by (simp add: eval_nat_numeral)

lemma replicate_two: "replicate 2 p = [p, p]"
  by (simp add: eval_nat_numeral)

lemma conforms_four:
  assumes "p \<in> set ''YMDHS''" and "n < 10000"
  shows "conforms [p, p, p, p] (zfill 4 (str n))"
proof -
  have "conforms (replicate 4 p) (zfill 4 (str n))"
    using assms by (intro conforms_zfill) simp_all
  then show ?thesis
    by (simp only: replicate_four)
qed

lemma conforms_two:
  assumes "p \<in> set ''YMDHS''" and "n < 100"
  shows "conforms [p, p] (zfill 2 (str n))"
proof -
  have "conforms (replicate 2 p) (zfill 2 (str n))"
    using assms by (intro conforms_zfill) simp_all
  then show ?thesis
    by (simp only: replicate_two)
qed

lemma strftime_conforms:
  assumes "clock_reading d"
  shows "conforms ''YYYY-MM-DD HH:MM:SS'' (strftime d)"
proof -
  have y: "conforms ''YYYY'' (zfill 4 (str (year d)))"
    using assms by (intro conforms_four) (simp_all add: clock_reading_def)
  have mo: "conforms ''MM'' (zfill 2 (str (month d)))"
    using assms by (intro conforms_two) (simp_all add: clock_reading_def)
  have da: "conforms ''DD'' (zfill 2 (str (day d)))"
    using assms by (intro conforms_two) (simp_all add: clock_reading_def)
  have h: "conforms ''HH'' (zfill 2 (str (hour d)))"
    using assms by (intro conforms_two) (simp_all add: clock_reading_def)
  have mi: "conforms ''MM'' (zfill 2 (str (minute d)))"
    using assms by (intro conforms_two) (simp_all add: clock_reading_def)
  have s: "conforms ''SS'' (zfill 2 (str (second d)))"
    using assms by (intro conforms_two) (simp_all add: clock_reading_def)
  have p: "''YYYY-MM-DD HH:MM:SS'' =
      ''YYYY'' @ ''-'' @ ''MM'' @ ''-'' @ ''DD'' @ '' '' @ ''HH'' @ '':'' @ ''MM'' @ '':'' @ ''SS''"
    by simp
  have sep: "conforms ''-'' ''-''" "conforms '' '' '' ''" "conforms '':'' '':''"
    by simp_all
  show ?thesis
    unfolding strftime_def p
    by (intro conforms_appendI y mo da h mi s sep)
qed

lemma length_zfill_str:
  assumes "0 < w" and "n < 10 ^ w"
  shows "length (zfill w (str n)) = w"
proof -
  from assms(1) obtain k where k: "w = Suc k"
    by (cases w) auto
  have "length (str n) \<le> w"
    using length_str [of n k] assms(2) by (simp add: k)
  then show ?thesis
    by (rule length_zfill)
qed

lemma length_four: "n < 10000 \<Longrightarrow> length (zfill 4 (str n)) = 4"
  by (rule length_zfill_str) simp_all

lemma length_two: "n < 100 \<Longrightarrow> length (zfill 2 (str n)) = 2"
  by (rule length_zfill_str) simp_all

lemma digit_values: "list_all (\<lambda>d. digit_value (digit_char d) = d) [0..<10]"
  by code_simp

lemma digit_value_digit_char: "d < 10 \<Longrightarrow> digit_value (digit_char d) = d"
  using digit_values by (simp add: list_all_iff)

lemma digit_value_zero: "digit_value (CHR ''0'') = 0"
  by (simp add: digit_value_def)

lemma decimal_snoc: "decimal (s @ [c]) = 10 * decimal s + digit_value c"
  by (simp add: decimal_def)

lemma decimal_str: "decimal (str n) = n"
proof (induction n rule: str.induct)
  case (1 n)
  show ?case
  proof (cases "n < 10")
    case True
    then show ?thesis
      using decimal_snoc [of "[]" "digit_char n"]
      by (simp add: str.simps [of n] digit_value_digit_char decimal_def)
  next
    case False
    with 1 show ?thesis
      by (simp add: str.simps [of n] decimal_snoc digit_value_digit_char)
  qed
qed

lemma decimal_zeros: "decimal (replicate k (CHR ''0'') @ s) = decimal s"
  by (induction k) (simp_all add: decimal_def digit_value_zero)

lemma decimal_zfill: "decimal (zfill w (str n)) = n"
  by (simp add: zfill_def decimal_zeros decimal_str)

lemma read_timestamp_fields:
  assumes "length a = 4" and "length b = 2" and "length c = 2"
    and "length e = 2" and "length f = 2" and "length g = 2"
  shows "read_timestamp (a @ ''-'' @ b @ ''-'' @ c @ '' '' @ e @ '':'' @ f @ '':'' @ g) =
     \<lparr>year = decimal a, month = decimal b, day = decimal c,
      hour = decimal e, minute = decimal f, second = decimal g\<rparr>"
  using assms by (simp add: read_timestamp_def)

lemma read_timestamp_strftime:
  assumes "clock_reading d"
  shows "read_timestamp (strftime d) = d"
proof -
  have y: "length (zfill 4 (str (year d))) = 4"
    using assms by (intro length_four) (simp add: clock_reading_def)
  have mo: "length (zfill 2 (str (month d))) = 2"
    using assms by (intro length_two) (simp add: clock_reading_def)
  have da: "length (zfill 2 (str (day d))) = 2"
    using assms by (intro length_two) (simp add: clock_reading_def)
  have h: "length (zfill 2 (str (hour d))) = 2"
    using assms by (intro length_two) (simp add: clock_reading_def)
  have mi: "length (zfill 2 (str (minute d))) = 2"
    using assms by (intro length_two) (simp add: clock_reading_def)
  have s: "length (zfill 2 (str (second d))) = 2"
    using assms by (intro length_two) (simp add: clock_reading_def)
  show ?thesis
    unfolding strftime_def read_timestamp_fields [OF y mo da h mi s]
    by (simp add: decimal_zfill)
qed

subsection \<open>Lists of rows\<close>

lemma store_state_Some:
  "store_state (Some t) \<longleftrightarrow>
     sorted_wrt (<) (ids t) \<and> list_all (\<lambda>i. int64 i \<and> i \<le> sqlite_sequence t) (ids t)
     \<and> int64 (sqlite_sequence t)"
  by (simp add: store_state_def)

lemma store_stateE:
  assumes "store_state db"
  obtains t where "db = Some t" and "sorted_wrt (<) (ids t)"
  using assms by (cases db) (auto simp: store_state_def)

lemma store_state_distinct: "store_state (Some t) \<Longrightarrow> distinct (map id' (rows t))"
  by (simp add: store_state_Some ids_def strict_sorted_iff)

lemma store_state_int64: "store_state (Some t) \<Longrightarrow> r \<in> set (rows t) \<Longrightarrow> int64 (id' r)"
  by (auto simp: store_state_Some ids_def list_all_iff)

lemma store_state_le: "store_state (Some t) \<Longrightarrow> r \<in> set (rows t) \<Longrightarrow> id' r \<le> sqlite_sequence t"
  by (auto simp: store_state_Some ids_def list_all_iff)

lemma store_state_sequence: "store_state (Some t) \<Longrightarrow> int64 (sqlite_sequence t)"
  by (simp add: store_state_Some)

lemma store_state_absent:
  "store_state (Some t) \<Longrightarrow> \<not> int64 i \<Longrightarrow> i \<notin> set (map id' (rows t))"
  using store_state_int64 [of t] by auto

lemma filter_unique:
  "distinct (map f xs) \<Longrightarrow> x \<in> set xs \<Longrightarrow> filter (\<lambda>y. f y = f x) xs = [x]"
proof (induction xs)
  case Nil
  then show ?case by simp
next
  case (Cons a xs)
  show ?case
  proof (cases "a = x")
    case True
    with Cons.prems have "f x \<notin> f ` set xs" by auto
    then have "\<forall>y\<in>set xs. f y \<noteq> f x" by (metis imageI)
    then have "filter (\<lambda>y. f y = f x) xs = []" by (simp add: filter_empty_conv)
    with True show ?thesis by simp
  next
    case False
    with Cons.prems have "x \<in> set xs" and "f a \<noteq> f x" by auto
    with Cons show ?thesis by simp
  qed
qed

lemma filter_absent: "i \<notin> set (map f xs) \<Longrightarrow> filter (\<lambda>y. f y = i) xs = []"
  by (induction xs) auto

lemma filter_others_absent: "i \<notin> set (map f xs) \<Longrightarrow> filter (\<lambda>y. f y \<noteq> i) xs = xs"
  by (induction xs) auto

lemma map_update_absent:
  "i \<notin> set (map f xs) \<Longrightarrow> map (\<lambda>r. if f r = i then g r else r) xs = xs"
  by (induction xs) auto

lemma length_filter_others:
  "distinct (map f xs) \<Longrightarrow> x \<in> set xs \<Longrightarrow>
     Suc (length (filter (\<lambda>y. f y \<noteq> f x) xs)) = length xs"
proof -
  assume d: "distinct (map f xs)" and x: "x \<in> set xs"
  have "length (filter (\<lambda>y. f y = f x) xs) + length (filter (\<lambda>y. \<not> f y = f x) xs) = length xs"
    by (rule sum_length_filter_compl)
  with filter_unique [OF d x] show ?thesis by simp
qed

lemma sorted_wrt_map_filter:
  "sorted_wrt R (map f xs) \<Longrightarrow> sorted_wrt R (map f (filter P xs))"
  by (induction xs) auto

lemma map_id_update:
  "map id' (map (\<lambda>r. if id' r = i
      then r\<lparr>name := n, email := e, phone := p, course := c\<rparr> else r) rs) = map id' rs"
  by (induction rs) auto

lemma map_date_update:
  "map enrollment_date (map (\<lambda>r. if id' r = i
      then r\<lparr>name := n, email := e, phone := p, course := c\<rparr> else r) rs)
   = map enrollment_date rs"
  by (induction rs) auto

subsection \<open>The new rowid in a store state\<close>

lemma new_rowid_full:
  assumes "store_state (Some t)"
  shows "new_rowid t = None \<longleftrightarrow> sqlite_sequence t = max_rowid"
proof (cases "largest_rowid (rows t)")
  case None
  then show ?thesis
    by (simp add: new_rowid_def Let_def max_rowid_def)
next
  case (Some m)
  from largest_rowid_mem [OF Some] obtain r where "r \<in> set (rows t)" and "id' r = m"
    by auto
  with assms have "m \<le> sqlite_sequence t"
    using store_state_le by blast
  moreover from assms have "sqlite_sequence t \<le> max_rowid"
    by (intro int64_max_rowid store_state_sequence)
  ultimately show ?thesis
    by (auto simp: new_rowid_def Let_def Some)
qed

lemma new_rowid_Some:
  assumes "store_state (Some t)" and "sqlite_sequence t < max_rowid"
  obtains i where "new_rowid t = Some i"
  using new_rowid_full [OF assms(1)] assms(2) by (cases "new_rowid t") auto

lemma new_rowid_int64:
  assumes "store_state (Some t)" and "new_rowid t = Some i"
  shows "int64 i"
proof -
  from assms(1) have s: "int64 (sqlite_sequence t)"
    by (rule store_state_sequence)
  from assms(2) have "sqlite_sequence t < i"
    by (rule new_rowid_above_sequence)
  moreover from assms(2) s have "i \<le> max_rowid"
    by (auto simp: new_rowid_def Let_def int64_def max_def split: if_splits)
  ultimately show ?thesis
    using s by (simp add: int64_def)
qed

subsection \<open>What the functions return on a table\<close>

lemma insert_student_Some:
  "new_rowid t = Some i \<Longrightarrow>
   insert_student (Some t) n e p c now =
     Inr (Some \<lparr>rows = rows t @ [\<lparr>id' = i, name = n, email = e, phone = p,
                    course = c, enrollment_date = strftime now\<rparr>],
                sqlite_sequence = i\<rparr>)"
  by (simp add: insert_student_def Let_def)

lemma insert_student_full:
  "new_rowid t = None \<Longrightarrow>
   insert_student (Some t) n e p c now = Inl (OperationalError ''database or disk is full'')"
  by (simp add: insert_student_def Let_def)

lemma update_student_Some:
  "int64 i \<Longrightarrow>
   update_student (Some t) i n e p c =
     Inr (Some (t\<lparr>rows := map (\<lambda>r. if id' r = i
        then r\<lparr>name := n, email := e, phone := p, course := c\<rparr> else r) (rows t)\<rparr>))"
  by (simp add: update_student_def)

lemma delete_student_Some:
  "int64 i \<Longrightarrow>
   delete_student (Some t) i = Inr (Some (t\<lparr>rows := filter (\<lambda>r. id' r \<noteq> i) (rows t)\<rparr>))"
  by (simp add: delete_student_def)

lemma get_student_by_id_Some:
  "int64 i \<Longrightarrow>
   get_student_by_id (Some t) i = Inr (fetchone (filter (\<lambda>r. id' r = i) (rows t)))"
  by (simp add: get_student_by_id_def)

lemma overflow:
  "\<not> int64 i \<Longrightarrow> get_student_by_id (Some t) i = Inl OverflowError"
  "\<not> int64 i \<Longrightarrow> update_student (Some t) i n e p c = Inl OverflowError"
  "\<not> int64 i \<Longrightarrow> delete_student (Some t) i = Inl OverflowError"
  by (simp_all add: get_student_by_id_def update_student_def delete_student_def)

lemma store_state_insert:
  assumes "store_state (Some t)" and "new_rowid t = Some i"
  shows "store_state (Some \<lparr>rows = rows t @ [\<lparr>id' = i, name = n, email = e,
            phone = p, course = c, enrollment_date = d\<rparr>], sqlite_sequence = i\<rparr>)"
proof -
  from assms(1) have s: "sorted_wrt (<) (map id' (rows t))"
    by (simp add: store_state_Some ids_def)
  have lt: "\<forall>x \<in> set (rows t). id' x < i"
    using new_rowid_above_rows [OF assms(2)] by blast
  then have le: "\<forall>x \<in> set (rows t). id' x \<le> i"
    by fastforce
  have r: "\<forall>x \<in> set (rows t). int64 (id' x)"
    using store_state_int64 [OF assms(1)] by blast
  have i: "int64 i"
    using assms by (rule new_rowid_int64)
  from s lt have "sorted_wrt (<) (map id' (rows t) @ [i])"
    by (simp add: sorted_wrt_append)
  with le r i show ?thesis
    by (simp add: store_state_Some ids_def list_all_iff)
qed

subsection \<open>One call and a sequence of calls\<close>

lemma perform_Initialize: "perform (Some t) Initialize = Some t"
  by (simp add: init_database_def)

lemma perform_Create:
  "new_rowid t = Some i \<Longrightarrow>
   perform (Some t) (Create n e p c now) =
     Some \<lparr>rows = rows t @ [\<lparr>id' = i, name = n, email = e, phone = p,
                    course = c, enrollment_date = strftime now\<rparr>],
           sqlite_sequence = i\<rparr>"
  by (simp add: insert_student_Some keep_def)

lemma perform_Create_full:
  "new_rowid t = None \<Longrightarrow> perform (Some t) (Create n e p c now) = Some t"
  by (simp add: insert_student_full keep_def)

lemma perform_Update:
  assumes "store_state (Some t)"
  shows "perform (Some t) (Update i n e p c) =
     Some (t\<lparr>rows := map (\<lambda>r. if id' r = i
        then r\<lparr>name := n, email := e, phone := p, course := c\<rparr> else r) (rows t)\<rparr>)"
proof (cases "int64 i")
  case True
  then show ?thesis
    by (simp add: update_student_Some keep_def)
next
  case False
  with assms have "i \<notin> set (map id' (rows t))"
    by (rule store_state_absent)
  then have "map (\<lambda>r. if id' r = i
        then r\<lparr>name := n, email := e, phone := p, course := c\<rparr> else r) (rows t) = rows t"
    by (rule map_update_absent)
  with False show ?thesis
    by (simp add: overflow keep_def)
qed

lemma perform_Delete:
  assumes "store_state (Some t)"
  shows "perform (Some t) (Delete i) = Some (t\<lparr>rows := filter (\<lambda>r. id' r \<noteq> i) (rows t)\<rparr>)"
proof (cases "int64 i")
  case True
  then show ?thesis
    by (simp add: delete_student_Some keep_def)
next
  case False
  with assms have "i \<notin> set (map id' (rows t))"
    by (rule store_state_absent)
  then have "filter (\<lambda>r. id' r \<noteq> i) (rows t) = rows t"
    by (rule filter_others_absent)
  with False show ?thesis
    by (simp add: overflow keep_def)
qed

lemma store_state_perform:
  assumes "store_state db"
  shows "store_state (perform db c)"
proof -
  from assms obtain t where t: "db = Some t"
    by (rule store_stateE)
  note st = assms [unfolded t]
  show ?thesis
  proof (cases c)
    case Initialize
    with assms t show ?thesis by (simp add: init_database_def)
  next
    case (Create n e p c' now)
    show ?thesis
    proof (cases "new_rowid t")
      case None
      with st show ?thesis
        by (simp only: t Create perform_Create_full)
    next
      case (Some i)
      from store_state_insert [OF st Some] show ?thesis
        by (simp only: t Create perform_Create [OF Some])
    qed
  next
    case (Update i n e p c')
    from st show ?thesis
      unfolding t Update perform_Update [OF st]
      by (simp add: store_state_Some ids_def map_id_update del: map_map)
  next
    case (Delete i)
    from st show ?thesis
      unfolding t Delete perform_Delete [OF st]
      by (simp add: store_state_Some ids_def sorted_wrt_map_filter list_all_iff)
  qed
qed

lemma session_Nil: "session db [] = db"
  by (simp add: session_def)

lemma session_Cons: "session db (c # cs) = session (perform db c) cs"
  by (simp add: session_def)

lemma session_append: "session db (cs1 @ cs2) = session (session db cs1) cs2"
  by (simp add: session_def)

lemma store_state_session: "store_state db \<Longrightarrow> store_state (session db cs)"
  by (induction cs arbitrary: db) (simp_all add: session_def store_state_perform)

lemma counter_Create:
  "new_rowid t = Some i \<Longrightarrow> counter (perform (Some t) (Create n e p c now)) = i"
  by (simp add: perform_Create counter_def del: perform.simps)

lemma counter_perform:
  assumes "store_state db"
  shows "counter db \<le> counter (perform db c)"
proof -
  from assms obtain t where t: "db = Some t"
    by (rule store_stateE)
  note st = assms [unfolded t]
  show ?thesis
  proof (cases c)
    case (Create n e p c' now)
    show ?thesis
    proof (cases "new_rowid t")
      case None
      then show ?thesis
        by (simp only: t Create perform_Create_full)
    next
      case (Some i)
      from new_rowid_above_sequence [OF Some] show ?thesis
        by (simp only: t Create counter_Create [OF Some]) (simp add: counter_def)
    qed
  qed (simp_all add: t perform_Initialize perform_Update [OF st] perform_Delete [OF st]
        counter_def del: perform.simps)
qed

lemma counter_session: "store_state db \<Longrightarrow> counter db \<le> counter (session db cs)"
proof (induction cs arbitrary: db)
  case Nil
  then show ?case by (simp add: session_def)
next
  case (Cons c cs)
  from Cons.prems have "counter db \<le> counter (perform db c)"
    by (rule counter_perform)
  also from Cons.prems have "\<dots> \<le> counter (session (perform db c) cs)"
    by (intro Cons.IH store_state_perform)
  finally show ?case by (simp add: session_Cons)
qed

lemma ids_le_counter:
  assumes "store_state db" and "r \<in> set (records db)"
  shows "id' r \<le> counter db"
proof -
  from assms(1) obtain t where t: "db = Some t"
    by (rule store_stateE)
  from assms show ?thesis
    by (auto simp: t store_state_Some ids_def list_all_iff records_def counter_def)
qed

lemma counter_int64: "store_state db \<Longrightarrow> int64 (counter db)"
  by (cases db) (simp_all add: store_state_def counter_def)

lemma records_distinct: "store_state db \<Longrightarrow> distinct (map id' (records db))"
  by (cases db) (simp_all add: store_state_def records_def ids_def strict_sorted_iff)

subsection \<open>The ids that creates assign\<close>

lemma assigned_Create:
  "assigned (Some t) (Create n e p c now # cs) =
     (case new_rowid t of None \<Rightarrow> [] | Some i \<Rightarrow> [i])
     @ assigned (perform (Some t) (Create n e p c now)) cs"
  by simp

lemma assigned_above:
  "store_state db \<Longrightarrow> i \<in> set (assigned db cs) \<Longrightarrow> counter db < i"
proof (induction cs arbitrary: db)
  case Nil
  then show ?case by simp
next
  case (Cons c cs)
  from Cons.prems(1) obtain t where t: "db = Some t"
    by (rule store_stateE)
  have st: "store_state (perform db c)"
    using Cons.prems(1) by (rule store_state_perform)
  have mono: "counter db \<le> counter (perform db c)"
    using Cons.prems(1) by (rule counter_perform)
  show ?case
  proof (cases "i \<in> set (assigned (perform db c) cs)")
    case True
    from Cons.IH [OF st True] mono show ?thesis by simp
  next
    case False
    with Cons.prems(2) obtain n e p c' now where c: "c = Create n e p c' now"
      by (cases c) auto
    with Cons.prems(2) False have "new_rowid t = Some i"
      by (auto simp: t split: option.splits simp del: perform.simps)
    from new_rowid_above_sequence [OF this] show ?thesis
      by (simp add: t counter_def)
  qed
qed

lemma assigned_le_counter:
  "store_state db \<Longrightarrow> i \<in> set (assigned db cs) \<Longrightarrow> i \<le> counter (session db cs)"
proof (induction cs arbitrary: db)
  case Nil
  then show ?case by simp
next
  case (Cons c cs)
  from Cons.prems(1) obtain t where t: "db = Some t"
    by (rule store_stateE)
  have st: "store_state (perform db c)"
    using Cons.prems(1) by (rule store_state_perform)
  show ?case
  proof (cases "i \<in> set (assigned (perform db c) cs)")
    case True
    from Cons.IH [OF st True] show ?thesis by (simp only: session_Cons)
  next
    case False
    with Cons.prems(2) obtain n e p c' now where c: "c = Create n e p c' now"
      by (cases c) auto
    with Cons.prems(2) False have "new_rowid t = Some i"
      by (auto simp: t split: option.splits simp del: perform.simps)
    then have "counter (perform db c) = i"
      by (simp only: t c counter_Create)
    with counter_session [OF st, of cs] show ?thesis
      by (simp only: session_Cons)
  qed
qed

lemma assigned_int64:
  assumes "store_state db" and "i \<in> set (assigned db cs)"
  shows "int64 i"
proof -
  have "int64 (counter db)" and "int64 (counter (session db cs))"
    using assms(1) by (auto intro: counter_int64 store_state_session)
  with assigned_above [OF assms] assigned_le_counter [OF assms] show ?thesis
    by (simp add: int64_def)
qed

lemma assigned_sorted: "store_state db \<Longrightarrow> sorted_wrt (<) (assigned db cs)"
proof (induction cs arbitrary: db)
  case Nil
  then show ?case by simp
next
  case (Cons c cs)
  from Cons.prems obtain t where t: "db = Some t"
    by (rule store_stateE)
  have st: "store_state (perform db c)"
    using Cons.prems by (rule store_state_perform)
  note ih = Cons.IH [OF st]
  show ?case
  proof (cases c)
    case (Create n e p c' now)
    show ?thesis
    proof (cases "new_rowid t")
      case None
      with ih show ?thesis
        by (simp add: t Create del: perform.simps)
    next
      case (Some i)
      have "\<forall>j \<in> set (assigned (perform db c) cs). i < j"
        using assigned_above [OF st] by (simp add: t Create counter_Create [OF Some] del: perform.simps)
      with ih show ?thesis
        by (simp add: t Create Some del: perform.simps)
    qed
  qed (use ih in simp_all)
qed

lemma assigned_append:
  "assigned db (cs1 @ cs2) = assigned db cs1 @ assigned (session db cs1) cs2"
proof (induction cs1 arbitrary: db)
  case Nil
  then show ?case by (simp add: session_def)
next
  case (Cons c cs1)
  then show ?case
    by (cases c) (simp_all add: session_Cons del: perform.simps)
qed

lemma ids_Create:
  "map id' (records (perform (Some t) (Create n e p c now)))
     = map id' (records (Some t)) @ assigned (Some t) [Create n e p c now]"
proof (cases "new_rowid t")
  case None
  then show ?thesis
    by (simp add: perform_Create_full records_def del: perform.simps)
next
  case (Some i)
  then show ?thesis
    by (simp add: perform_Create [OF Some] records_def del: perform.simps)
qed

lemma ids_perform:
  assumes "store_state db"
  shows "set (map id' (records (perform db c)))
           \<subseteq> set (map id' (records db)) \<union> set (assigned db [c])"
proof -
  from assms obtain t where t: "db = Some t"
    by (rule store_stateE)
  note st = assms [unfolded t]
  show ?thesis
  proof (cases c)
    case (Create n e p c' now)
    show ?thesis
      unfolding t Create ids_Create by simp
  qed (auto simp: t perform_Initialize perform_Update [OF st] perform_Delete [OF st]
        records_def map_id_update simp del: perform.simps map_map)
qed

lemma ids_session:
  "store_state db \<Longrightarrow>
     set (map id' (records (session db cs))) \<subseteq> set (map id' (records db)) \<union> set (assigned db cs)"
proof (induction cs arbitrary: db)
  case Nil
  then show ?case by (simp add: session_def)
next
  case (Cons c cs)
  have st: "store_state (perform db c)"
    using Cons.prems by (rule store_state_perform)
  have "assigned db (c # cs) = assigned db [c] @ assigned (perform db c) cs"
    using assigned_append [of db "[c]" cs] by (simp add: session_def)
  with Cons.IH [OF st] ids_perform [OF Cons.prems, of c] show ?case
    unfolding session_Cons by auto
qed

subsection \<open>The enrollment date over a sequence of calls\<close>

lemma date_kept_perform:
  assumes "store_state db" and "r' \<in> set (records (perform db c))" and "id' r' \<le> counter db"
  shows "\<exists>r \<in> set (records db). id' r = id' r' \<and> enrollment_date r = enrollment_date r'"
proof -
  from assms(1) obtain t where t: "db = Some t"
    by (rule store_stateE)
  note st = assms(1) [unfolded t]
  show ?thesis
  proof (cases c)
    case Initialize
    with assms(2) show ?thesis
      by (auto simp: t perform_Initialize simp del: perform.simps)
  next
    case (Create n e p c' now)
    show ?thesis
    proof (cases "new_rowid t")
      case None
      with assms(2) show ?thesis
        by (auto simp: t Create perform_Create_full simp del: perform.simps)
    next
      case (Some i)
      from assms(3) new_rowid_above_sequence [OF Some] have "id' r' \<noteq> i"
        by (simp add: t counter_def)
      with assms(2) show ?thesis
        by (auto simp: t Create perform_Create [OF Some] records_def simp del: perform.simps)
    qed
  next
    case (Update i n e p c')
    with assms(2) show ?thesis
      by (auto simp: t perform_Update [OF st] records_def split: if_splits simp del: perform.simps)
  next
    case (Delete i)
    with assms(2) show ?thesis
      by (auto simp: t perform_Delete [OF st] records_def simp del: perform.simps)
  qed
qed

lemma date_kept_session:
  "store_state db \<Longrightarrow> r' \<in> set (records (session db cs)) \<Longrightarrow> id' r' \<le> counter db \<Longrightarrow>
     \<exists>r \<in> set (records db). id' r = id' r' \<and> enrollment_date r = enrollment_date r'"
proof (induction cs arbitrary: db)
  case Nil
  then show ?case by (auto simp: session_Nil)
next
  case (Cons c cs)
  have st: "store_state (perform db c)"
    using Cons.prems(1) by (rule store_state_perform)
  from Cons.prems(2) have m: "r' \<in> set (records (session (perform db c) cs))"
    by (simp only: session_Cons)
  from Cons.prems(3) counter_perform [OF Cons.prems(1), of c]
  have le: "id' r' \<le> counter (perform db c)"
    by simp
  from Cons.IH [OF st m le] obtain r1 where r1: "r1 \<in> set (records (perform db c))"
    and i1: "id' r1 = id' r'" and d1: "enrollment_date r1 = enrollment_date r'"
    by blast
  from Cons.prems(3) i1 have "id' r1 \<le> counter db"
    by simp
  from date_kept_perform [OF Cons.prems(1) r1 this] i1 d1 show ?case
    by auto
qed

lemma enrollment_date_kept:
  assumes "store_state db" and "r \<in> set (records db)"
    and "r' \<in> set (records (session db cs))" and "id' r' = id' r"
  shows "enrollment_date r' = enrollment_date r"
proof -
  have d: "distinct (map id' (records db))"
    using assms(1) by (rule records_distinct)
  from ids_le_counter [OF assms(1,2)] assms(4) have "id' r' \<le> counter db"
    by simp
  from date_kept_session [OF assms(1,3) this] obtain r0 where r0: "r0 \<in> set (records db)"
    and i0: "id' r0 = id' r'" and d0: "enrollment_date r0 = enrollment_date r'"
    by blast
  from d r0 assms(2) i0 assms(4) have "r0 = r"
    by (auto simp: distinct_map inj_on_def)
  with d0 show ?thesis by simp
qed

subsection \<open>The example stores\<close>

lemma id_alice: "id' alice = 1" by (simp add: alice_def)
lemma id_bob: "id' bob = 3" by (simp add: bob_def)

lemma two_students_store_state: "store_state two_students"
  by (simp add: two_students_def store_state_def ids_def id_alice id_bob int64_bounds)

lemma exhausted_store_state: "store_state exhausted"
  by (simp add: exhausted_def store_state_def ids_def id_alice id_bob int64_bounds)

lemma records_two_students: "records two_students = [alice, bob]"
  by (simp add: two_students_def records_def)

lemma records_exhausted: "records exhausted = [alice, bob]"
  by (simp add: exhausted_def records_def)

lemma counter_two_students: "counter two_students < max_rowid"
  by (simp add: two_students_def counter_def max_rowid_def)

lemma new_rowid_two_students:
  "new_rowid \<lparr>rows = [alice, bob], sqlite_sequence = 5\<rparr> = Some 6"
  by (simp add: new_rowid_def Let_def max_rowid_def id_alice id_bob)

lemma new_rowid_exhausted:
  "new_rowid \<lparr>rows = [alice, bob], sqlite_sequence = 9223372036854775807\<rparr> = None"
  by (simp add: new_rowid_def Let_def max_rowid_def id_alice id_bob)

lemma strftime_example_reading: "strftime example_reading = ''2026-11-04 09:05:00''"
  by (simp add: example_reading_def strftime_def zfill_def str.simps digit_char_def)

lemma clock_reading_example: "clock_reading example_reading"
  by (simp add: example_reading_def clock_reading_def)

lemma insert_two_students:
  "insert_student two_students n e p c example_reading =
     Inr (Some \<lparr>rows = [alice, bob, \<lparr>id' = 6, name = n, email = e, phone = p, course = c,
                   enrollment_date = ''2026-11-04 09:05:00''\<rparr>], sqlite_sequence = 6\<rparr>)"
  by (simp add: two_students_def insert_student_Some [OF new_rowid_two_students]
      strftime_example_reading)

lemma insert_exhausted:
  "insert_student exhausted n e p c now = Inl (OperationalError ''database or disk is full'')"
  by (simp add: exhausted_def insert_student_full [OF new_rowid_exhausted])

lemma insert_carol:
  "insert_student two_students ''Carol'' ''c@x.com'' ''555-0002'' ''Database Design''
       example_reading
     = Inr (Some \<lparr>rows = [alice, bob, carol], sqlite_sequence = 6\<rparr>)"
  by (simp add: insert_two_students carol_def)

section \<open>The claims\<close>

subsection \<open>Initialisation\<close>

lemma init_database_funpow: "(init_database ^^ Suc n) db = init_database db"
  by (induction n) (auto simp: init_database_def split: option.splits)

text \<open>
  Claim C7. \<open>init_database\<close> is idempotent. Calling it any number of times on a
  database file that holds the table returns the file as it is, schema, rows and counter;
  calling it once or more on any file gives what one call gives; on a file without the
  table it creates the empty table, which is a store state that lists no record. In the
  model the function has no failing branch: it returns a database file for every input.
\<close>

theorem init_database_idempotent:
  "init_database (init_database db) = init_database db
   \<and> (init_database ^^ n) (Some t) = Some t
   \<and> (init_database ^^ Suc n) db = init_database db
   \<and> init_database None = Some \<lparr>rows = [], sqlite_sequence = 0\<rparr>
   \<and> store_state (init_database None)
   \<and> view_all_students (init_database None) = Inr []"
proof -
  have a: "(init_database ^^ n) (Some t) = Some t"
    by (induction n) (simp_all add: init_database_def)
  have b: "init_database (init_database db) = init_database db"
    by (simp add: init_database_def split: option.splits)
  have c: "store_state (init_database None)"
    by (simp add: init_database_def store_state_def ids_def int64_bounds)
  have d: "view_all_students (init_database None) = Inr []"
    by (simp add: init_database_def view_all_students_def)
  from a b c d init_database_funpow show ?thesis
    by (simp add: init_database_def)
qed

theorem init_database_idempotent_witness:
  "init_database (init_database None) = init_database None
   \<and> (init_database ^^ 3) two_students = two_students
   \<and> store_state (init_database None)"
  using init_database_idempotent [of None 3 "\<lparr>rows = [alice, bob], sqlite_sequence = 5\<rparr>"]
  unfolding two_students_def by blast

subsection \<open>Listing\<close>

text \<open>
  Claim C8. In every store state \<open>view_all_students\<close> returns, without an error, the
  sequence of all records of the store in storage order; the sequence is in strictly
  ascending order of the ids, so no record is listed twice; and a store without records
  yields the empty sequence, not an error.
\<close>

theorem view_all_students_storage_order:
  assumes "store_state db"
  shows "\<exists>rs. view_all_students db = Inr rs \<and> rs = records db
           \<and> sorted_wrt (<) (map id' rs) \<and> distinct (map id' rs)
           \<and> (records db = [] \<longrightarrow> view_all_students db = Inr [])"
  using assms
  by (cases db)
    (auto simp: store_state_def view_all_students_def records_def ids_def strict_sorted_iff)

theorem view_all_students_storage_order_witness:
  "store_state two_students \<and> view_all_students two_students = Inr [alice, bob]"
  using view_all_students_storage_order [OF two_students_store_state]
  by (simp add: two_students_store_state records_two_students)

subsection \<open>Ids that are not in the store\<close>

text \<open>
  An integer that is no 64-bit integer is the id of no record, and with it none of the
  three functions gets as far as the table: binding it to the statement raises.
\<close>

theorem absent_id_overflow:
  "store_state two_students
   \<and> 9223372036854775808 \<notin> set (map id' (records two_students))
   \<and> get_student_by_id two_students 9223372036854775808 = Inl OverflowError
   \<and> update_student two_students 9223372036854775808
         ''Carol'' ''c@x.com'' ''555-0002'' ''Database Design'' = Inl OverflowError
   \<and> delete_student two_students 9223372036854775808 = Inl OverflowError"
proof -
  have i: "\<not> int64 9223372036854775808"
    by (simp add: int64_bounds)
  have "9223372036854775808 \<notin> set (map id' (records two_students))"
    by (simp add: records_two_students id_alice id_bob)
  with two_students_store_state overflow [OF i] show ?thesis
    unfolding two_students_def by blast
qed

text \<open>
  Claim C3, for the ids that can be bound. In every store state and for every id that no
  record of the store has: when the id is a 64-bit integer, \<open>get_student_by_id\<close>
  returns \<open>None\<close>, and \<open>update_student\<close> and \<open>delete_student\<close> return the store
  unchanged, rows and counter, and none of the three returns an error; when it is not,
  each of the three raises \<^verbatim>\<open>OverflowError\<close>.
\<close>

theorem absent_id_is_no_op:
  assumes "store_state db" and "student_id \<notin> set (map id' (records db))"
  shows "(int64 student_id \<longrightarrow>
            get_student_by_id db student_id = Inr None
            \<and> update_student db student_id name' email' phone' course' = Inr db
            \<and> delete_student db student_id = Inr db)
         \<and> (\<not> int64 student_id \<longrightarrow>
            get_student_by_id db student_id = Inl OverflowError
            \<and> update_student db student_id name' email' phone' course' = Inl OverflowError
            \<and> delete_student db student_id = Inl OverflowError)"
proof -
  from assms(1) obtain t where t: "db = Some t"
    by (rule store_stateE)
  from assms(2) have a: "student_id \<notin> set (map id' (rows t))"
    by (simp add: t records_def)
  have "get_student_by_id db student_id = Inr None" if "int64 student_id"
    using that by (simp add: get_student_by_id_Some t filter_absent [OF a])
  moreover have "update_student db student_id name' email' phone' course' = Inr db"
    if "int64 student_id"
    using that by (simp add: update_student_Some t map_update_absent [OF a])
  moreover have "delete_student db student_id = Inr db" if "int64 student_id"
    using that by (simp add: delete_student_Some t filter_others_absent [OF a])
  ultimately show ?thesis
    by (simp add: t overflow)
qed

theorem absent_id_is_no_op_witness:
  "store_state two_students \<and> 2 \<notin> set (map id' (records two_students)) \<and> int64 2
   \<and> get_student_by_id two_students 2 = Inr None
   \<and> update_student two_students 2 ''Carol'' ''c@x.com'' ''555-0002'' ''Database Design''
       = Inr two_students
   \<and> delete_student two_students 2 = Inr two_students"
proof -
  have h: "2 \<notin> set (map id' (records two_students))"
    by (simp add: records_two_students id_alice id_bob)
  have i: "int64 2"
    by (simp add: int64_bounds)
  from absent_id_is_no_op [OF two_students_store_state h] h i two_students_store_state
  show ?thesis by simp
qed

subsection \<open>Deleting a record\<close>

text \<open>
  Claim C5. In every store state, deleting by the id of a record of the store succeeds,
  leaves exactly one record fewer, namely all records but that one in their order, and
  afterwards \<open>get_student_by_id\<close> with that id returns \<open>None\<close>.
\<close>

theorem delete_student_removes_one:
  assumes "store_state db" and "r \<in> set (records db)"
  shows "\<exists>db'. delete_student db (id' r) = Inr db'
           \<and> Suc (length (records db')) = length (records db)
           \<and> get_student_by_id db' (id' r) = Inr None
           \<and> view_all_students db' = Inr (filter (\<lambda>x. x \<noteq> r) (records db))"
proof -
  from assms(1) obtain t where t: "db = Some t" and s: "sorted_wrt (<) (ids t)"
    by (rule store_stateE)
  from s have d: "distinct (map id' (rows t))"
    by (simp add: ids_def strict_sorted_iff)
  from assms(2) have r: "r \<in> set (rows t)"
    by (simp add: t records_def)
  have i: "int64 (id' r)"
    using assms(1) [unfolded t] r by (rule store_state_int64)
  let ?rs = "filter (\<lambda>x. id' x \<noteq> id' r) (rows t)"
  have 1: "delete_student db (id' r) = Inr (Some (t\<lparr>rows := ?rs\<rparr>))"
    by (simp add: delete_student_Some [OF i] t)
  have 2: "Suc (length ?rs) = length (rows t)"
    using d r by (rule length_filter_others)
  have 3: "filter (\<lambda>x. id' x = id' r) ?rs = []"
    by (simp add: filter_empty_conv)
  have 4: "?rs = filter (\<lambda>x. x \<noteq> r) (rows t)"
  proof (rule filter_cong [OF refl])
    fix x assume "x \<in> set (rows t)"
    with d r show "(id' x \<noteq> id' r) = (x \<noteq> r)"
      by (auto simp: distinct_map inj_on_def)
  qed
  show ?thesis
    using 1 2 3 4
    by (simp add: records_def t get_student_by_id_Some [OF i] view_all_students_def)
qed

theorem delete_student_removes_one_witness:
  "store_state two_students \<and> alice \<in> set (records two_students)
   \<and> delete_student two_students 1 = Inr (Some \<lparr>rows = [bob], sqlite_sequence = 5\<rparr>)
   \<and> get_student_by_id (Some \<lparr>rows = [bob], sqlite_sequence = 5\<rparr>) 1 = Inr None"
proof -
  have h: "alice \<in> set (records two_students)"
    by (simp add: records_two_students)
  have d: "delete_student two_students 1 = Inr (Some \<lparr>rows = [bob], sqlite_sequence = 5\<rparr>)"
    by (simp add: delete_student_def two_students_def id_alice id_bob int64_bounds)
  from delete_student_removes_one [OF two_students_store_state h] d h two_students_store_state
  show ?thesis by (simp add: id_alice)
qed

subsection \<open>Updating a record\<close>

lemma get_after_update:
  assumes "store_state (Some t)" and "r \<in> set (rows t)"
  shows "get_student_by_id
           (Some (t\<lparr>rows := map (\<lambda>x. if id' x = id' r
              then x\<lparr>name := n, email := e, phone := p, course := c\<rparr> else x) (rows t)\<rparr>))
           (id' r)
         = Inr (Some (r\<lparr>name := n, email := e, phone := p, course := c\<rparr>))"
proof -
  let ?u = "\<lambda>x. if id' x = id' r then x\<lparr>name := n, email := e, phone := p, course := c\<rparr> else x"
  let ?r' = "r\<lparr>name := n, email := e, phone := p, course := c\<rparr>"
  have i: "int64 (id' r)"
    using assms by (rule store_state_int64)
  have d: "distinct (map id' (map ?u (rows t)))"
    using store_state_distinct [OF assms(1)] by (simp only: map_id_update)
  have m: "?r' \<in> set (map ?u (rows t))"
    using assms(2) by force
  have "filter (\<lambda>y. id' y = id' ?r') (map ?u (rows t)) = [?r']"
    using d m by (rule filter_unique)
  then have f: "filter (\<lambda>y. id' y = id' r) (map ?u (rows t)) = [?r']"
    by simp
  have g: "rows (t\<lparr>rows := map ?u (rows t)\<rparr>) = map ?u (rows t)"
    by simp
  show ?thesis
    by (simp only: get_student_by_id_Some [OF i] g f fetchone.simps)
qed

text \<open>
  Claim C4. In every store state, updating the name, email, phone and course of a record
  of the store by its id succeeds, and \<open>get_student_by_id\<close> with that id then returns
  a record with exactly the four new values, the same id and the same enrollment date:
  the old record with the four fields replaced.
\<close>

theorem update_student_then_get:
  assumes "store_state db" and "r \<in> set (records db)"
  shows "\<exists>db' r'. update_student db (id' r) name' email' phone' course' = Inr db'
           \<and> get_student_by_id db' (id' r) = Inr (Some r')
           \<and> name r' = name' \<and> email r' = email' \<and> phone r' = phone' \<and> course r' = course'
           \<and> id' r' = id' r \<and> enrollment_date r' = enrollment_date r
           \<and> r' = r\<lparr>name := name', email := email', phone := phone', course := course'\<rparr>"
proof -
  from assms(1) obtain t where t: "db = Some t"
    by (rule store_stateE)
  note st = assms(1) [unfolded t]
  from assms(2) have r: "r \<in> set (rows t)"
    by (simp add: t records_def)
  have i: "int64 (id' r)"
    using st r by (rule store_state_int64)
  from get_after_update [OF st r] show ?thesis
    by (simp add: t update_student_Some [OF i])
qed

theorem update_student_then_get_witness:
  "store_state two_students \<and> bob \<in> set (records two_students)
   \<and> update_student two_students 3 ''Robert'' ''r@x.com'' ''555-0033'' ''Data Science''
       = Inr (Some \<lparr>rows = [alice, bob\<lparr>name := ''Robert'', email := ''r@x.com'',
                phone := ''555-0033'', course := ''Data Science''\<rparr>], sqlite_sequence = 5\<rparr>)
   \<and> (\<exists>db' r'. update_student two_students (id' bob) ''Robert'' ''r@x.com'' ''555-0033''
          ''Data Science'' = Inr db'
        \<and> get_student_by_id db' (id' bob) = Inr (Some r')
        \<and> name r' = ''Robert'' \<and> id' r' = 3
        \<and> enrollment_date r' = ''2026-11-05 17:30:59'')"
proof -
  have h: "bob \<in> set (records two_students)"
    by (simp add: records_two_students)
  have u: "update_student two_students 3 ''Robert'' ''r@x.com'' ''555-0033'' ''Data Science''
       = Inr (Some \<lparr>rows = [alice, bob\<lparr>name := ''Robert'', email := ''r@x.com'',
                phone := ''555-0033'', course := ''Data Science''\<rparr>], sqlite_sequence = 5\<rparr>)"
    by (simp add: update_student_def two_students_def id_alice id_bob int64_bounds)
  from update_student_then_get [OF two_students_store_state h,
      of "''Robert''" "''r@x.com''" "''555-0033''" "''Data Science''"]
  obtain db' r' where
    "update_student two_students (id' bob) ''Robert'' ''r@x.com'' ''555-0033''
          ''Data Science'' = Inr db'"
    "get_student_by_id db' (id' bob) = Inr (Some r')"
    "name r' = ''Robert''" "id' r' = id' bob" "enrollment_date r' = enrollment_date bob"
    by blast
  then have "\<exists>db' r'. update_student two_students (id' bob) ''Robert'' ''r@x.com'' ''555-0033''
          ''Data Science'' = Inr db'
        \<and> get_student_by_id db' (id' bob) = Inr (Some r')
        \<and> name r' = ''Robert'' \<and> id' r' = 3
        \<and> enrollment_date r' = ''2026-11-05 17:30:59''"
    by (auto simp: id_bob bob_def)
  with two_students_store_state h u show ?thesis
    by blast
qed

subsection \<open>What an update and a deletion leave alone\<close>

text \<open>
  Claim C10. In every store state and for every id, the store after \<open>update_student\<close>
  has the same number of records in the same order with the same ids, and every record
  with another id is as it was; the store after \<open>delete_student\<close> holds exactly the
  records with another id, in their order, so every such record is still there, and at
  most one record is gone. With a 64-bit integer both calls return that store; with any
  other integer both raise \<^verbatim>\<open>OverflowError\<close> and the store is the one from before.
\<close>

theorem update_delete_frame:
  assumes "store_state db"
  shows "\<exists>db1 db2. db1 = perform db (Update student_id name' email' phone' course')
           \<and> db2 = perform db (Delete student_id)
           \<and> length (records db1) = length (records db)
           \<and> (\<forall>k < length (records db). id' (records db ! k) \<noteq> student_id
                 \<longrightarrow> records db1 ! k = records db ! k)
           \<and> map id' (records db1) = map id' (records db)
           \<and> records db2 = filter (\<lambda>r. id' r \<noteq> student_id) (records db)
           \<and> (\<forall>r \<in> set (records db). id' r \<noteq> student_id \<longrightarrow> r \<in> set (records db2))
           \<and> length (records db) \<le> Suc (length (records db2))
           \<and> (if int64 student_id
              then update_student db student_id name' email' phone' course' = Inr db1
                   \<and> delete_student db student_id = Inr db2
              else update_student db student_id name' email' phone' course' = Inl OverflowError
                   \<and> delete_student db student_id = Inl OverflowError
                   \<and> db1 = db \<and> db2 = db)"
proof -
  from assms(1) obtain t where t: "db = Some t" and s: "sorted_wrt (<) (ids t)"
    by (rule store_stateE)
  note st = assms(1) [unfolded t]
  from s have d: "distinct (map id' (rows t))"
    by (simp add: ids_def strict_sorted_iff)
  have le: "length (rows t) \<le> Suc (length (filter (\<lambda>r. id' r \<noteq> student_id) (rows t)))"
  proof (cases "student_id \<in> set (map id' (rows t))")
    case True
    then obtain x where x: "x \<in> set (rows t)" and i: "student_id = id' x"
      by auto
    from length_filter_others [OF d x] show ?thesis
      by (simp add: i)
  next
    case False
    then show ?thesis
      by (simp add: filter_others_absent)
  qed
  have res: "if int64 student_id
      then update_student db student_id name' email' phone' course'
             = Inr (perform db (Update student_id name' email' phone' course'))
           \<and> delete_student db student_id = Inr (perform db (Delete student_id))
      else update_student db student_id name' email' phone' course' = Inl OverflowError
           \<and> delete_student db student_id = Inl OverflowError
           \<and> perform db (Update student_id name' email' phone' course') = db
           \<and> perform db (Delete student_id) = db"
  proof (cases "int64 student_id")
    case True
    then show ?thesis
      by (simp add: t update_student_Some delete_student_Some keep_def)
  next
    case False
    then show ?thesis
      by (simp add: t overflow keep_def)
  qed
  have frame: "length (records (perform db (Update student_id name' email' phone' course')))
        = length (records db)
      \<and> (\<forall>k < length (records db). id' (records db ! k) \<noteq> student_id
            \<longrightarrow> records (perform db (Update student_id name' email' phone' course')) ! k
                = records db ! k)
      \<and> map id' (records (perform db (Update student_id name' email' phone' course')))
          = map id' (records db)
      \<and> records (perform db (Delete student_id))
          = filter (\<lambda>r. id' r \<noteq> student_id) (records db)
      \<and> (\<forall>r \<in> set (records db). id' r \<noteq> student_id
            \<longrightarrow> r \<in> set (records (perform db (Delete student_id))))
      \<and> length (records db) \<le> Suc (length (records (perform db (Delete student_id))))"
    using le
    by (simp add: t perform_Update [OF st] perform_Delete [OF st] records_def map_id_update
        del: perform.simps)
  from res frame show ?thesis
    by blast
qed

theorem update_delete_frame_witness:
  "store_state two_students \<and> int64 1 \<and> \<not> int64 9223372036854775808
   \<and> (\<exists>db1 db2. update_student two_students 1 ''Alicia'' ''a@y.org'' ''555-1111''
          ''Machine Learning'' = Inr db1
        \<and> delete_student two_students 1 = Inr db2
        \<and> records db1 ! 1 = bob \<and> records db2 = [bob])
   \<and> update_student two_students 9223372036854775808 ''Alicia'' ''a@y.org'' ''555-1111''
          ''Machine Learning'' = Inl OverflowError
   \<and> perform two_students (Delete 9223372036854775808) = two_students"
proof -
  have i: "int64 1" and j: "\<not> int64 9223372036854775808"
    by (simp_all add: int64_bounds)
  from update_delete_frame [OF two_students_store_state,
      of 1 "''Alicia''" "''a@y.org''" "''555-1111''" "''Machine Learning''"] i
  obtain db1 db2 where
    1: "update_student two_students 1 ''Alicia'' ''a@y.org'' ''555-1111''
          ''Machine Learning'' = Inr db1"
    and 2: "delete_student two_students 1 = Inr db2"
    and 3: "\<forall>k < length (records two_students). id' (records two_students ! k) \<noteq> 1
                 \<longrightarrow> records db1 ! k = records two_students ! k"
    and 4: "records db2 = filter (\<lambda>r. id' r \<noteq> 1) (records two_students)"
    by (auto simp del: perform.simps)
  from 3 have "records db1 ! 1 = bob"
    by (simp add: records_two_students id_bob)
  moreover from 4 have "records db2 = [bob]"
    by (simp add: records_two_students id_alice id_bob)
  ultimately have a: "\<exists>db1 db2. update_student two_students 1 ''Alicia'' ''a@y.org''
          ''555-1111'' ''Machine Learning'' = Inr db1
        \<and> delete_student two_students 1 = Inr db2
        \<and> records db1 ! 1 = bob \<and> records db2 = [bob]"
    using 1 2 by blast
  from update_delete_frame [OF two_students_store_state,
      of 9223372036854775808 "''Alicia''" "''a@y.org''" "''555-1111''" "''Machine Learning''"] j
  have b: "update_student two_students 9223372036854775808 ''Alicia'' ''a@y.org'' ''555-1111''
          ''Machine Learning'' = Inl OverflowError
        \<and> perform two_students (Delete 9223372036854775808) = two_students"
    by (auto simp del: perform.simps)
  from a b i j two_students_store_state show ?thesis
    by blast
qed

subsection \<open>Creating a record\<close>

text \<open>
  A table that has once held the largest rowid takes no further record: the create
  raises, and the listing afterwards is the listing from before.
\<close>

theorem insert_student_exhausted:
  "store_state exhausted
   \<and> view_all_students exhausted = Inr [alice, bob]
   \<and> insert_student exhausted ''Carol'' ''c@x.com'' ''555-0002'' ''Database Design''
       example_reading = Inl (OperationalError ''database or disk is full'')
   \<and> view_all_students (perform exhausted
       (Create ''Carol'' ''c@x.com'' ''555-0002'' ''Database Design'' example_reading))
       = Inr [alice, bob]"
  by (simp add: exhausted_store_state insert_exhausted keep_def)
    (simp add: exhausted_def view_all_students_def)

text \<open>
  Claim C1, for the stores that can take a record. In every store state whose counter
  is below the largest rowid, creating a record succeeds, and listing all records
  afterwards yields the listing from before followed by exactly one more record; that
  record has the name, email, phone and course that were given, and its id is the id of
  no record listed before, so the ids of the new listing are pairwise distinct. The
  fields need not be non-empty for this (see claim C9), and the result is a store state
  again.
\<close>

theorem insert_student_then_view:
  assumes "store_state db" and "counter db < max_rowid"
  shows "\<exists>rs db' r. view_all_students db = Inr rs
           \<and> insert_student db name' email' phone' course' now = Inr db'
           \<and> view_all_students db' = Inr (rs @ [r])
           \<and> name r = name' \<and> email r = email' \<and> phone r = phone' \<and> course r = course'
           \<and> id' r \<notin> set (map id' rs)
           \<and> distinct (map id' (rs @ [r]))
           \<and> store_state db'"
proof -
  from assms(1) obtain t where t: "db = Some t"
    by (rule store_stateE)
  note st = assms(1) [unfolded t]
  from assms(2) have "sqlite_sequence t < max_rowid"
    by (simp add: t counter_def)
  with st obtain i where i: "new_rowid t = Some i"
    by (rule new_rowid_Some)
  let ?r = "\<lparr>id' = i, name = name', email = email', phone = phone',
             course = course', enrollment_date = strftime now\<rparr>"
  let ?t' = "\<lparr>rows = rows t @ [?r], sqlite_sequence = i\<rparr>"
  have 1: "view_all_students db = Inr (rows t)"
    by (simp add: t view_all_students_def)
  have 2: "insert_student db name' email' phone' course' now = Inr (Some ?t')"
    by (simp add: t insert_student_Some [OF i])
  have 3: "view_all_students (Some ?t') = Inr (rows t @ [?r])"
    by (simp add: view_all_students_def)
  have 4: "store_state (Some ?t')"
    using st i by (rule store_state_insert)
  have 5: "id' ?r \<notin> set (map id' (rows t))"
    using new_rowid_fresh [OF i] by simp
  have 6: "distinct (map id' (rows t @ [?r]))"
    using store_state_distinct [OF 4] by simp
  have 7: "name ?r = name' \<and> email ?r = email' \<and> phone ?r = phone' \<and> course ?r = course'"
    by simp
  from 1 2 3 4 5 6 7 show ?thesis
    by blast
qed

theorem insert_student_then_view_witness:
  "store_state two_students \<and> counter two_students < max_rowid
   \<and> view_all_students two_students = Inr [alice, bob]
   \<and> insert_student two_students ''Carol'' ''c@x.com'' ''555-0002'' ''Database Design''
       example_reading
     = Inr (Some \<lparr>rows = [alice, bob, \<lparr>id' = 6, name = ''Carol'', email = ''c@x.com'',
              phone = ''555-0002'', course = ''Database Design'',
              enrollment_date = ''2026-11-04 09:05:00''\<rparr>], sqlite_sequence = 6\<rparr>)
   \<and> (\<exists>rs db' r. view_all_students two_students = Inr rs
         \<and> insert_student two_students ''Carol'' ''c@x.com'' ''555-0002'' ''Database Design''
             example_reading = Inr db'
         \<and> view_all_students db' = Inr (rs @ [r])
         \<and> name r = ''Carol'' \<and> id' r \<notin> set (map id' rs))"
proof -
  have v: "view_all_students two_students = Inr [alice, bob]"
    by (simp add: view_all_students_def two_students_def)
  from insert_student_then_view [OF two_students_store_state counter_two_students,
      of "''Carol''" "''c@x.com''" "''555-0002''" "''Database Design''" example_reading]
  have "\<exists>rs db' r. view_all_students two_students = Inr rs
         \<and> insert_student two_students ''Carol'' ''c@x.com'' ''555-0002'' ''Database Design''
             example_reading = Inr db'
         \<and> view_all_students db' = Inr (rs @ [r])
         \<and> name r = ''Carol'' \<and> id' r \<notin> set (map id' rs)"
    by blast
  with two_students_store_state counter_two_students v insert_two_students show ?thesis
    by blast
qed

subsection \<open>No validation in the store\<close>

text \<open>
  Whether a create raises does not depend on the texts: in a table that has once held
  the largest rowid it raises for every four of them, empty or not, and adds no row.
\<close>

theorem create_exhausted_raises:
  "store_state exhausted
   \<and> insert_student exhausted ''Erin'' [] ''555-0005'' [] example_reading
       = Inl (OperationalError ''database or disk is full'')
   \<and> records (perform exhausted (Create ''Erin'' [] ''555-0005'' [] example_reading))
       = [alice, bob]"
  by (simp add: exhausted_store_state insert_exhausted keep_def records_exhausted)

text \<open>
  Claim C9, for the stores that can take a record. The store does not check that a field
  is non-empty. In every store state and for all four texts, the empty text included:
  when the counter is below the largest rowid, \<open>insert_student\<close> succeeds and appends
  a row with exactly these texts; and \<open>update_student\<close> with the id of a record of the
  store succeeds and leaves that record with exactly these texts in its four fields.
\<close>

theorem store_does_not_validate:
  assumes "store_state db" and "clock_reading now"
  shows "(counter db < max_rowid \<longrightarrow>
            (\<exists>t t' i. db = Some t \<and> new_rowid t = Some i
               \<and> insert_student db name' email' phone' course' now = Inr (Some t')
               \<and> rows t' = rows t @ [\<lparr>id' = i, name = name', email = email',
                    phone = phone', course = course', enrollment_date = strftime now\<rparr>]))
         \<and> (\<forall>r \<in> set (records db). \<exists>db'.
              update_student db (id' r) name' email' phone' course' = Inr db'
              \<and> get_student_by_id db' (id' r)
                  = Inr (Some (r\<lparr>name := name', email := email', phone := phone',
                                 course := course'\<rparr>)))"
proof -
  from assms(1) obtain t where t: "db = Some t"
    by (rule store_stateE)
  note st = assms(1) [unfolded t]
  have a: "\<exists>t' i. new_rowid t = Some i
            \<and> insert_student db name' email' phone' course' now = Inr (Some t')
            \<and> rows t' = rows t @ [\<lparr>id' = i, name = name', email = email',
                 phone = phone', course = course', enrollment_date = strftime now\<rparr>]"
    if "counter db < max_rowid"
  proof -
    from that have "sqlite_sequence t < max_rowid"
      by (simp add: t counter_def)
    with st obtain i where i: "new_rowid t = Some i"
      by (rule new_rowid_Some)
    then show ?thesis
      by (simp add: t insert_student_Some [OF i])
  qed
  have b: "\<exists>db'. update_student db (id' r) name' email' phone' course' = Inr db'
              \<and> get_student_by_id db' (id' r)
                  = Inr (Some (r\<lparr>name := name', email := email', phone := phone',
                                 course := course'\<rparr>))"
    if "r \<in> set (records db)" for r
  proof -
    from that have r: "r \<in> set (rows t)"
      by (simp add: t records_def)
    have i: "int64 (id' r)"
      using st r by (rule store_state_int64)
    from get_after_update [OF st r] show ?thesis
      by (simp add: t update_student_Some [OF i])
  qed
  from a b t show ?thesis
    by blast
qed

theorem store_does_not_validate_witness:
  "store_state two_students \<and> clock_reading example_reading
   \<and> counter two_students < max_rowid
   \<and> insert_student two_students [] [] [] [] example_reading
     = Inr (Some \<lparr>rows = [alice, bob, \<lparr>id' = 6, name = [], email = [], phone = [],
              course = [], enrollment_date = ''2026-11-04 09:05:00''\<rparr>], sqlite_sequence = 6\<rparr>)
   \<and> (\<exists>t'. insert_student two_students [] [] [] [] example_reading = Inr (Some t')
        \<and> length (rows t') = 3)
   \<and> (\<exists>db'. update_student two_students (id' bob) [] [] [] [] = Inr db'
        \<and> get_student_by_id db' (id' bob)
            = Inr (Some (bob\<lparr>name := [], email := [], phone := [], course := []\<rparr>)))"
proof -
  note inst = store_does_not_validate [OF two_students_store_state clock_reading_example,
      of "[]" "[]" "[]" "[]"]
  have "bob \<in> set (records two_students)"
    by (simp add: records_two_students)
  with inst
  have u: "\<exists>db'. update_student two_students (id' bob) [] [] [] [] = Inr db'
        \<and> get_student_by_id db' (id' bob)
            = Inr (Some (bob\<lparr>name := [], email := [], phone := [], course := []\<rparr>))"
    by blast
  from inst counter_two_students
  obtain t t' i where "two_students = Some t"
    and "insert_student two_students [] [] [] [] example_reading = Inr (Some t')"
    and "rows t' = rows t @ [\<lparr>id' = i, name = [], email = [], phone = [], course = [],
           enrollment_date = strftime example_reading\<rparr>]"
    by blast
  then have c: "\<exists>t'. insert_student two_students [] [] [] [] example_reading = Inr (Some t')
        \<and> length (rows t') = 3"
    by (auto simp: two_students_def)
  from u c two_students_store_state clock_reading_example counter_two_students
    insert_two_students
  show ?thesis
    by blast
qed

subsection \<open>Ids\<close>

lemma assigned_example: "assigned two_students [Delete 3, dave, erin] = [6, 7]"
  by (simp add: two_students_def dave_def erin_def delete_student_def insert_student_def
      keep_def new_rowid_def Let_def max_rowid_def id_alice id_bob int64_bounds)

lemma assigned_example_erin: "assigned (session two_students [Delete 3, dave]) [erin] = [7]"
  by (simp add: session_def two_students_def dave_def erin_def delete_student_def
      insert_student_def keep_def new_rowid_def Let_def max_rowid_def id_alice id_bob
      int64_bounds)

text \<open>
  Claim C6. Ids are assigned by the store: a create appends to the ids of the store the
  one id it assigns, if it assigns one. From every store state and over every sequence
  of calls, the ids assigned by successive creates are strictly increasing, hence
  pairwise distinct, and each is a 64-bit integer above the counter of the initial
  store; an id assigned later is the id of no record of the initial store, none of the
  ids assigned before, and the id of no record present at that moment, so the id of a
  deleted record is never assigned again; the ids of the records present are pairwise
  distinct and each is the id of an initial record or one that a create assigned; and
  an update changes no id.
\<close>

theorem ids_never_reused:
  assumes "store_state db"
  shows "sorted_wrt (<) (assigned db (cs1 @ cs2))
         \<and> (\<forall>i \<in> set (assigned db cs1). counter db < i \<and> int64 i)
         \<and> (\<forall>i \<in> set (assigned (session db cs1) cs2).
               i \<notin> set (map id' (records db))
               \<and> i \<notin> set (assigned db cs1)
               \<and> i \<notin> set (map id' (records (session db cs1))))
         \<and> distinct (map id' (records (session db cs1)))
         \<and> set (map id' (records (session db cs1)))
               \<subseteq> set (map id' (records db)) \<union> set (assigned db cs1)
         \<and> map id' (records (perform db (Create name' email' phone' course' now)))
               = map id' (records db) @ assigned db [Create name' email' phone' course' now]
         \<and> map id' (records (perform db (Update student_id name' email' phone' course')))
               = map id' (records db)"
proof -
  from assms obtain t where t: "db = Some t"
    by (rule store_stateE)
  note s = assms [unfolded t]
  have st: "store_state (session db cs1)"
    using assms by (rule store_state_session)
  have 1: "sorted_wrt (<) (assigned db (cs1 @ cs2))"
    using assms by (rule assigned_sorted)
  have 0: "\<forall>i \<in> set (assigned db cs1). counter db < i \<and> int64 i"
    using assigned_above [OF assms] assigned_int64 [OF assms] by blast
  have 2: "i \<notin> set (map id' (records db)) \<and> i \<notin> set (assigned db cs1)
           \<and> i \<notin> set (map id' (records (session db cs1)))"
    if i: "i \<in> set (assigned (session db cs1) cs2)" for i
  proof -
    from assigned_above [OF st i] have late: "counter (session db cs1) < i" .
    have "i \<notin> set (map id' (records (session db cs1)))"
      using ids_le_counter [OF st] late by fastforce
    moreover have "i \<notin> set (map id' (records db))"
      using ids_le_counter [OF assms] counter_session [OF assms, of cs1] late by fastforce
    moreover have "i \<notin> set (assigned db cs1)"
      using 1 i by (auto simp: assigned_append sorted_wrt_append)
    ultimately show ?thesis by simp
  qed
  have 3: "distinct (map id' (records (session db cs1)))"
    using st by (rule records_distinct)
  have 4: "set (map id' (records (session db cs1)))
             \<subseteq> set (map id' (records db)) \<union> set (assigned db cs1)"
    using assms by (rule ids_session)
  have 5: "map id' (records (perform db (Create name' email' phone' course' now)))
             = map id' (records db) @ assigned db [Create name' email' phone' course' now]"
    unfolding t by (rule ids_Create)
  have 6: "map id' (records (perform db (Update student_id name' email' phone' course')))
             = map id' (records db)"
    by (simp add: t perform_Update [OF s] records_def map_id_update del: perform.simps map_map)
  from 0 1 2 3 4 5 6 show ?thesis
    by blast
qed

theorem ids_never_reused_witness:
  "store_state two_students
   \<and> assigned two_students [Delete 3, dave, erin] = [6, 7]
   \<and> sorted_wrt (<) (assigned two_students ([Delete 3, dave] @ [erin]))
   \<and> 7 \<in> set (assigned (session two_students [Delete 3, dave]) [erin])
   \<and> 7 \<notin> set (map id' (records two_students))
   \<and> 7 \<notin> set (assigned two_students [Delete 3, dave])
   \<and> 7 \<notin> set (map id' (records (session two_students [Delete 3, dave])))
   \<and> distinct (map id' (records (session two_students [Delete 3, dave])))"
proof -
  have m: "7 \<in> set (assigned (session two_students [Delete 3, dave]) [erin])"
    by (simp only: assigned_example_erin) simp
  from ids_never_reused [OF two_students_store_state, of "[Delete 3, dave]" "[erin]"] m
  have "sorted_wrt (<) (assigned two_students ([Delete 3, dave] @ [erin]))
     \<and> 7 \<notin> set (map id' (records two_students))
     \<and> 7 \<notin> set (assigned two_students [Delete 3, dave])
     \<and> 7 \<notin> set (map id' (records (session two_students [Delete 3, dave])))
     \<and> distinct (map id' (records (session two_students [Delete 3, dave])))"
    by blast
  with two_students_store_state assigned_example m show ?thesis
    by blast
qed

subsection \<open>The enrollment date\<close>

lemma session_update_carol:
  "session (Some \<lparr>rows = [alice, bob, carol], sqlite_sequence = 6\<rparr>)
       [Update 6 ''Caroline'' ''c@y.org'' ''555-2222'' ''Data Science'']
     = Some \<lparr>rows = [alice, bob, carol\<lparr>name := ''Caroline'', email := ''c@y.org'',
                phone := ''555-2222'', course := ''Data Science''\<rparr>], sqlite_sequence = 6\<rparr>"
  by (simp add: session_def update_student_def keep_def id_alice id_bob carol_def int64_bounds)

lemma read_timestamp_example: "read_timestamp ''2026-11-04 09:05:00'' = example_reading"
  using read_timestamp_strftime [OF clock_reading_example]
  by (simp only: strftime_example_reading)

text \<open>
  Claim C2. In every store state and at every reading of the clock, the record that a
  create adds has as its enrollment date the text that \<open>strftime\<close> makes of that
  reading: a text in the layout \<^verbatim>\<open>YYYY-MM-DD HH:MM:SS\<close> whose six fields, read as
  decimal numbers, are the year, month, day, hour, minute and second of the reading.
  After every sequence of calls that follows, updates with any id and any values
  included, a record with the id of that record has that enrollment date; and an update
  with any id and any values leaves the enrollment dates and the ids of all records as
  they are.
\<close>

theorem enrollment_date_set_once:
  assumes "store_state db" and "clock_reading now"
    and "insert_student db name' email' phone' course' now = Inr db'"
  shows "\<exists>r. records db' = records db @ [r]
           \<and> read_timestamp (enrollment_date r) = now
           \<and> conforms ''YYYY-MM-DD HH:MM:SS'' (enrollment_date r)
           \<and> enrollment_date r = strftime now
           \<and> (\<forall>cs. \<forall>r' \<in> set (records (session db' cs)).
                 id' r' = id' r \<longrightarrow> enrollment_date r' = enrollment_date r)
           \<and> (\<forall>student_id n e p c.
                 map enrollment_date (records (perform db' (Update student_id n e p c)))
                   = map enrollment_date (records db')
                 \<and> map id' (records (perform db' (Update student_id n e p c)))
                   = map id' (records db'))"
proof -
  from assms(1) obtain t where t: "db = Some t"
    by (rule store_stateE)
  note s = assms(1) [unfolded t]
  from assms(3) obtain i where i: "new_rowid t = Some i"
    by (cases "new_rowid t") (auto simp: t insert_student_full)
  let ?r = "\<lparr>id' = i, name = name', email = email', phone = phone',
             course = course', enrollment_date = strftime now\<rparr>"
  let ?t' = "\<lparr>rows = rows t @ [?r], sqlite_sequence = i\<rparr>"
  from assms(3) have db': "db' = Some ?t'"
    by (simp add: t insert_student_Some [OF i])
  have 2: "records (Some ?t') = records db @ [?r]"
    by (simp add: t records_def)
  have st: "store_state (Some ?t')"
    using s i by (rule store_state_insert)
  have 3: "read_timestamp (enrollment_date ?r) = now"
    using read_timestamp_strftime [OF assms(2)] by simp
  have 4: "conforms ''YYYY-MM-DD HH:MM:SS'' (enrollment_date ?r)"
    using strftime_conforms [OF assms(2)] by simp
  have 5: "enrollment_date ?r = strftime now"
    by simp
  have m: "?r \<in> set (records (Some ?t'))"
    by (simp add: records_def)
  have 6: "\<forall>cs. \<forall>r' \<in> set (records (session (Some ?t') cs)).
             id' r' = id' ?r \<longrightarrow> enrollment_date r' = enrollment_date ?r"
    using enrollment_date_kept [OF st m] by blast
  have 7: "\<forall>student_id n e p c.
             map enrollment_date (records (perform (Some ?t') (Update student_id n e p c)))
               = map enrollment_date (records (Some ?t'))
             \<and> map id' (records (perform (Some ?t') (Update student_id n e p c)))
               = map id' (records (Some ?t'))"
    by (simp add: perform_Update [OF st] records_def map_date_update map_id_update
        del: perform.simps map_map)
  from 2 3 4 5 6 7 show ?thesis
    unfolding db' by blast
qed

theorem enrollment_date_set_once_witness:
  "store_state two_students \<and> clock_reading example_reading
   \<and> insert_student two_students ''Carol'' ''c@x.com'' ''555-0002'' ''Database Design''
       example_reading
     = Inr (Some \<lparr>rows = [alice, bob, carol], sqlite_sequence = 6\<rparr>)
   \<and> enrollment_date carol = ''2026-11-04 09:05:00''
   \<and> read_timestamp (enrollment_date carol) = example_reading
   \<and> conforms ''YYYY-MM-DD HH:MM:SS'' (enrollment_date carol)
   \<and> enrollment_date (carol\<lparr>name := ''Caroline'', email := ''c@y.org'',
         phone := ''555-2222'', course := ''Data Science''\<rparr>) = enrollment_date carol"
proof -
  let ?db' = "Some \<lparr>rows = [alice, bob, carol], sqlite_sequence = 6\<rparr>"
  let ?c' = "carol\<lparr>name := ''Caroline'', email := ''c@y.org'',
         phone := ''555-2222'', course := ''Data Science''\<rparr>"
  from enrollment_date_set_once [OF two_students_store_state clock_reading_example insert_carol]
  obtain r where
    2: "records ?db' = records two_students @ [r]"
    and 3: "read_timestamp (enrollment_date r) = example_reading"
    and 4: "conforms ''YYYY-MM-DD HH:MM:SS'' (enrollment_date r)"
    and 5: "enrollment_date r = strftime example_reading"
    and 6: "\<forall>cs. \<forall>r' \<in> set (records (session ?db' cs)).
                 id' r' = id' r \<longrightarrow> enrollment_date r' = enrollment_date r"
    by blast
  from 2 have r: "r = carol"
    by (simp add: records_def records_two_students)
  have "?c' \<in> set (records (session ?db'
            [Update 6 ''Caroline'' ''c@y.org'' ''555-2222'' ''Data Science'']))"
    unfolding session_update_carol by (simp add: records_def)
  moreover have "id' ?c' = id' r"
    by (simp add: r)
  ultimately have "enrollment_date ?c' = enrollment_date r"
    using 6 by blast
  with 3 4 5 two_students_store_state clock_reading_example insert_carol show ?thesis
    by (simp add: r strftime_example_reading)
qed

end
